theory Spec2Isabelle
  imports Main "HOL-Library.Char_ord"
begin

section \<open>Python values, dictionaries and the object store\<close>

text \<open>
  The mapper of \<^verbatim>\<open>source_mappers.py\<close> works on Python objects. Strings, numbers,
  \<^verbatim>\<open>None\<close> and lists are never mutated by the code and are modelled by value. A
  \<^verbatim>\<open>dict\<close> is mutated in place (\<^verbatim>\<open>update\<close>, \<^verbatim>\<open>setdefault\<close>, item assignment) and may be
  reachable both from the source and from the result, so a dict value is a reference
  \<open>VDict a\<close> into a store of dict objects; the address \<open>a\<close> is the index of the object.
  A dict keeps its insertion order, so its content is an association list.
\<close>

type_synonym addr = nat

datatype pyval = VNone | VStr string | VInt int | VList "pyval list" | VDict addr

type_synonym pydict = "(string \<times> pyval) list"

type_synonym heap = "pydict list"

fun is_dict :: "pyval \<Rightarrow> bool" where
  "is_dict (VDict a) = True"
| "is_dict v = False"

definition dict_at :: "heap \<Rightarrow> addr \<Rightarrow> pydict" where
  "dict_at h a = (if a < length h then h ! a else [])"

text \<open>\<^verbatim>\<open>d[k] = v\<close>: an existing key keeps its place, a new key goes to the end.\<close>

fun dict_set :: "pydict \<Rightarrow> string \<Rightarrow> pyval \<Rightarrow> pydict" where
  "dict_set [] k v = [(k, v)]"
| "dict_set ((k', v') # d) k v =
     (if k' = k then (k, v) # d else (k', v') # dict_set d k v)"

text \<open>\<^verbatim>\<open>d.update(items)\<close>: the items are stored one after the other.\<close>

fun dict_update :: "pydict \<Rightarrow> pydict \<Rightarrow> pydict" where
  "dict_update d [] = d"
| "dict_update d ((k, v) # items) = dict_update (dict_set d k v) items"

text \<open>
  The exceptions that can leave the code: \<^verbatim>\<open>SettingsError\<close> with the name it reports,
  \<^verbatim>\<open>AttributeError\<close> (\<^verbatim>\<open>setdefault\<close> or \<^verbatim>\<open>update\<close> called on an object that is not a dict),
  \<^verbatim>\<open>TypeError\<close> (item assignment on an object that is not a dict), \<^verbatim>\<open>ImportError\<close>
  (python-dotenv missing), what reading a dotenv file can raise (\<^verbatim>\<open>LookupError\<close> for an
  unknown encoding, \<^verbatim>\<open>UnicodeDecodeError\<close>, \<^verbatim>\<open>OSError\<close>) and whatever else the pluggable
  decoder raises.
\<close>

datatype exn =
    SettingsError string
  | AttributeError
  | TypeError
  | ImportError
  | LookupError
  | UnicodeDecodeError
  | OSError
  | OtherException

section \<open>Field descriptors and the mapper\<close>

text \<open>
  A field descriptor carries what the mapper reads from pydantic's \<^verbatim>\<open>ModelField\<close>:
  \<^item> \<open>field_name\<close>: \<^verbatim>\<open>field.name\<close>; \<open>field_alias\<close>: \<^verbatim>\<open>field.alias\<close>;
  \<^item> \<open>env_names\<close>: \<^verbatim>\<open>field.field_info.extra.get('env_names', [])\<close>;
  \<^item> \<open>has_env\<close>: the result of \<^verbatim>\<open>SourceMapper.has_env(field)\<close>, that is whether
    \<^verbatim>\<open>get_field_info(field.name).get('env') or field.field_info.extra.get('env')\<close> is
    not \<^verbatim>\<open>None\<close>;
  \<^item> \<open>is_complex\<close>: \<^verbatim>\<open>field.is_complex()\<close>;
  \<^item> \<open>is_union\<close>: \<^verbatim>\<open>is_union(get_origin(field.type_))\<close>;
  \<^item> \<open>sub_fields\<close>: \<^verbatim>\<open>f.is_complex()\<close> for each \<^verbatim>\<open>f\<close> of \<^verbatim>\<open>field.sub_fields\<close>
    (empty when \<^verbatim>\<open>field.sub_fields\<close> is \<^verbatim>\<open>None\<close>);
  \<^item> \<open>is_model\<close>: \<^verbatim>\<open>lenient_issubclass(field.type_, BaseModel)\<close>;
  \<^item> \<open>model_fields\<close>: \<^verbatim>\<open>field.type_.__fields__.values()\<close>.
  The attributes are independent of each other: the theorems hold for every
  combination, also for those pydantic never builds.
\<close>

datatype field = Field
  (field_name: string)
  (field_alias: string)
  (env_names: "string list")
  (has_env: bool)
  (is_complex: bool)
  (is_union: bool)
  (sub_fields: "bool list")
  (is_model: bool)
  (model_fields: "field list")

text \<open>
  The decoder \<^verbatim>\<open>complex_parser(field.name, value)\<close> is pluggable (the default is
  \<^verbatim>\<open>json.loads\<close>). It reads the store and returns a fresh value together with the dict
  objects it has created for it, which go to the end of the store (so the first of them
  gets the address \<open>length h\<close>); or it raises \<^verbatim>\<open>ValueError\<close> (also its subclass
  \<^verbatim>\<open>json.JSONDecodeError\<close>); or it raises something else. A decoder does not change
  objects that exist already.
\<close>

datatype parse_result = Parsed pyval "pydict list" | ValueError | OtherError

text \<open>
  The mapper holds the slots of \<^verbatim>\<open>SourceMapper\<close> that the code reads (\<^verbatim>\<open>get_field_info\<close>
  is read by \<^verbatim>\<open>has_env\<close> only, whose result is part of the field descriptor). It also
  carries \<open>str_lower\<close>, Python's built-in \<^verbatim>\<open>str.lower\<close>, which the code calls on the
  source keys: the built-in follows the Unicode case mapping and is not part of the
  repository, so it is a parameter of the model, and every theorem below holds for
  whatever function stands for it.
\<close>

record mapper =
  source :: "(string \<times> pyval) list"
  case_sensitive :: bool
  nesting_delimiter :: "string option"
  complex_parser :: "string \<Rightarrow> pyval \<Rightarrow> heap \<Rightarrow> parse_result"
  str_lower :: "string \<Rightarrow> string"

section \<open>The key index\<close>

text \<open>
  Line 59: \<^verbatim>\<open>str(source_key) if self.case_sensitive else str(source_key).lower()\<close>. The
  keys of the source are strings (\<^verbatim>\<open>Mapping[str, Any]\<close>), on which \<^verbatim>\<open>str(key)\<close> is the
  identity. The property \<^verbatim>\<open>keymap\<close> is memoized for the mapper; the code never changes the
  keys of the source, so the memoized index is the index computed here.
\<close>

definition normalize :: "mapper \<Rightarrow> string \<Rightarrow> string" where
  "normalize m source_key =
     (if case_sensitive m then source_key else str_lower m source_key)"

fun keymap_loop :: "mapper \<Rightarrow> string list \<Rightarrow> (string \<rightharpoonup> string) \<Rightarrow> (string \<rightharpoonup> string)" where
  "keymap_loop m [] keydb = keydb"
| "keymap_loop m (source_key # keys) keydb =
     (let key = normalize m source_key in
      if keydb key \<noteq> None then keymap_loop m keys keydb
      else keymap_loop m keys (keydb(key \<mapsto> source_key)))"

definition keymap :: "mapper \<Rightarrow> (string \<rightharpoonup> string)" where
  "keymap m = keymap_loop m (map fst (source m)) Map.empty"

section \<open>Classifying a field\<close>

definition field_is_complex :: "field \<Rightarrow> bool \<times> bool" where
  "field_is_complex f =
     (if is_complex f then (True, False)
      else if is_union f \<and> sub_fields f \<noteq> [] \<and> list_ex (\<lambda>c. c) (sub_fields f)
        then (True, True)
      else (False, False))"

section \<open>Resolving the value of one field\<close>

text \<open>
  One round of the loop of \<^verbatim>\<open>get_field_value\<close> up to the decoded value (lines 115 to
  132): the candidate is looked up in the key index as it is; a missing entry, a falsy
  source key and a \<^verbatim>\<open>None\<close> value skip the candidate; the value of a complex field
  that is not a dict goes through the decoder, whose \<^verbatim>\<open>ValueError\<close> is swallowed when
  the field tolerates it and becomes a \<^verbatim>\<open>SettingsError\<close> naming \<^verbatim>\<open>key\<close> otherwise.
\<close>

datatype lookup = Skip | Found pyval heap | Failed exn

definition candidate_value :: "mapper \<Rightarrow> field \<Rightarrow> string \<Rightarrow> heap \<Rightarrow> lookup" where
  "candidate_value m f key h =
     (case keymap m key of
        None \<Rightarrow> Skip
      | Some source_key \<Rightarrow>
          if source_key = [] then Skip
          else (case map_of (source m) source_key of
                  None \<Rightarrow> Skip
                | Some val \<Rightarrow>
                    if val = VNone then Skip
                    else if fst (field_is_complex f) \<and> \<not> is_dict val then
                      (case complex_parser m (field_name f) val h of
                         Parsed v new \<Rightarrow> Found v (h @ new)
                       | ValueError \<Rightarrow>
                           if snd (field_is_complex f) then Found val h
                           else Failed (SettingsError key)
                       | OtherError \<Rightarrow> Failed OtherException)
                    else Found val h))"

text \<open>
  What \<^verbatim>\<open>get_field_value\<close> returns: the class \<^verbatim>\<open>_Empty\<close>, the fresh dict
  \<^verbatim>\<open>dict_result\<close> (by value: nothing else refers to it yet), or a value that is not a
  dict.
\<close>

datatype response = Empty | Frag pydict | Scalar pyval

text \<open>Lines 142 to 144: an empty \<^verbatim>\<open>dict_result\<close> is falsy.\<close>

definition final_response :: "pydict \<Rightarrow> response" where
  "final_response dict_result = (if dict_result = [] then Empty else Frag dict_result)"

fun get_field_value_loop ::
  "mapper \<Rightarrow> field \<Rightarrow> string list \<Rightarrow> pydict \<Rightarrow> heap \<Rightarrow> exn + (response \<times> heap)" where
  "get_field_value_loop m f [] dict_result h =
     Inr (final_response dict_result, h)"
| "get_field_value_loop m f (key # keys) dict_result h =
     (case candidate_value m f key h of
        Skip \<Rightarrow> get_field_value_loop m f keys dict_result h
      | Failed e \<Rightarrow> Inl e
      | Found val h' \<Rightarrow>
          (case val of
             VDict a \<Rightarrow> get_field_value_loop m f keys (dict_update dict_result (dict_at h' a)) h'
           | _ \<Rightarrow> Inr (Scalar val, h')))"

definition get_field_value ::
  "mapper \<Rightarrow> string list \<Rightarrow> field \<Rightarrow> heap \<Rightarrow> exn + (response \<times> heap)" where
  "get_field_value m search_radar f h = get_field_value_loop m f search_radar [] h"

section \<open>Writing into the result\<close>

text \<open>
  \<^verbatim>\<open>result\<close> is whatever object the caller passes: the fresh dict of \<^verbatim>\<open>__call__\<close>, or
  what \<^verbatim>\<open>result.setdefault(field.alias, {})\<close> returned, which need not be a dict.
\<close>

definition py_setdefault :: "pyval \<Rightarrow> string \<Rightarrow> heap \<Rightarrow> exn + (pyval \<times> heap)" where
  "py_setdefault result key h =
     (case result of
        VDict r \<Rightarrow>
          (case map_of (dict_at h r) key of
             Some v \<Rightarrow> Inr (v, h)
           | None \<Rightarrow>
               Inr (VDict (length h),
                    (h[r := dict_set (dict_at h r) key (VDict (length h))]) @ [[]]))
      | _ \<Rightarrow> Inl AttributeError)"

definition py_update :: "pyval \<Rightarrow> pydict \<Rightarrow> heap \<Rightarrow> exn + heap" where
  "py_update target items h =
     (case target of
        VDict a \<Rightarrow> Inr (h[a := dict_update (dict_at h a) items])
      | _ \<Rightarrow> Inl AttributeError)"

definition py_setitem :: "pyval \<Rightarrow> string \<Rightarrow> pyval \<Rightarrow> heap \<Rightarrow> exn + heap" where
  "py_setitem result key v h =
     (case result of
        VDict r \<Rightarrow> Inr (h[r := dict_set (dict_at h r) key v])
      | _ \<Rightarrow> Inl TypeError)"

text \<open>Lines 95 to 99 of \<^verbatim>\<open>update_result_for_field\<close>.\<close>

definition store_response :: "string \<Rightarrow> response \<Rightarrow> pyval \<Rightarrow> heap \<Rightarrow> exn + heap" where
  "store_response al response result h =
     (case response of
        Empty \<Rightarrow> Inr h
      | Frag items \<Rightarrow>
          (case py_setdefault result al h of
             Inl e \<Rightarrow> Inl e
           | Inr (target, h') \<Rightarrow> py_update target items h')
      | Scalar v \<Rightarrow> py_setitem result al v h)"

definition field_names :: "field \<Rightarrow> string \<Rightarrow> string list" where
  "field_names f prefix =
     (if \<not> has_env f then map (\<lambda>env. prefix @ env) (env_names f) else env_names f)"

section \<open>The resolver\<close>

text \<open>
  \<^verbatim>\<open>update_result_for_field\<close> with its two nested loops: \<open>nested_names\<close> is
  \<^verbatim>\<open>for name in names\<close> and \<open>nested_fields\<close> is
  \<^verbatim>\<open>for f in field.type_.__fields__.values()\<close>, where the argument
  \<^verbatim>\<open>result.setdefault(field.alias, {})\<close> is evaluated before each recursive call.
\<close>

function (sequential)
  update_result_for_field :: "mapper \<Rightarrow> field \<Rightarrow> string \<Rightarrow> pyval \<Rightarrow> heap \<Rightarrow> exn + heap"
and nested_names ::
  "mapper \<Rightarrow> string \<Rightarrow> string \<Rightarrow> field list \<Rightarrow> string list \<Rightarrow> pyval \<Rightarrow> heap \<Rightarrow> exn + heap"
and nested_fields ::
  "mapper \<Rightarrow> string \<Rightarrow> string \<Rightarrow> field list \<Rightarrow> pyval \<Rightarrow> heap \<Rightarrow> exn + heap"
where
  "update_result_for_field m f prefix result h =
     (case get_field_value m (field_names f prefix) f h of
        Inl e \<Rightarrow> Inl e
      | Inr (response, h1) \<Rightarrow>
          (case store_response (field_alias f) response result h1 of
             Inl e \<Rightarrow> Inl e
           | Inr h2 \<Rightarrow>
               (case nesting_delimiter m of
                  None \<Rightarrow> Inr h2
                | Some delimiter \<Rightarrow>
                    if is_model f \<and> delimiter \<noteq> []
                    then nested_names m delimiter (field_alias f) (model_fields f)
                           (field_names f prefix) result h2
                    else Inr h2)))"
| "nested_names m delimiter al fs [] result h = Inr h"
| "nested_names m delimiter al fs (name # names) result h =
     (case nested_fields m al (name @ delimiter) fs result h of
        Inl e \<Rightarrow> Inl e
      | Inr h' \<Rightarrow> nested_names m delimiter al fs names result h')"
| "nested_fields m al nesting_prefix [] result h = Inr h"
| "nested_fields m al nesting_prefix (f # fs) result h =
     (case py_setdefault result al h of
        Inl e \<Rightarrow> Inl e
      | Inr (sub, h1) \<Rightarrow>
          (case update_result_for_field m f nesting_prefix sub h1 of
             Inl e \<Rightarrow> Inl e
           | Inr h2 \<Rightarrow> nested_fields m al nesting_prefix fs result h2))"
  by pat_completeness auto

termination
  apply (relation "inv_image (less_than <*lex*> less_than)
      (\<lambda>x. case x of
          Inl (m, f, p, r, h) \<Rightarrow> (size f, 0)
        | Inr (Inl (m, d, al, fs, names, r, h)) \<Rightarrow> (size_list size fs, Suc (length names))
        | Inr (Inr (m, al, np, fs, r, h)) \<Rightarrow> (size_list size fs, 0))")
       apply simp_all
  subgoal by (intro wf_inv_image wf_lex_prod wf_less_than)
  subgoal for m f by (cases f) simp
  done

text \<open>
  \<^verbatim>\<open>__call__\<close>: a fresh result dict, every field resolved into it with the empty
  prefix. An exception leaves no result behind.
\<close>

fun call_loop :: "mapper \<Rightarrow> field list \<Rightarrow> pyval \<Rightarrow> heap \<Rightarrow> exn + heap" where
  "call_loop m [] result h = Inr h"
| "call_loop m (f # fs) result h =
     (case update_result_for_field m f [] result h of
        Inl e \<Rightarrow> Inl e
      | Inr h' \<Rightarrow> call_loop m fs result h')"

definition call :: "mapper \<Rightarrow> field list \<Rightarrow> heap \<Rightarrow> exn + (pyval \<times> heap)" where
  "call m flds h =
     (case call_loop m flds (VDict (length h)) (h @ [[]]) of
        Inl e \<Rightarrow> Inl e
      | Inr h' \<Rightarrow> Inr (VDict (length h), h'))"

section \<open>The source providers\<close>

text \<open>
  \<^verbatim>\<open>source_providers.py\<close> reads the outside world: the process environment
  \<^verbatim>\<open>os.environ\<close>, whether \<^verbatim>\<open>Path(p).expanduser().is_file()\<close> holds, what python-dotenv's
  \<^verbatim>\<open>dotenv_values(path, encoding=...)\<close> does for a file, and whether python-dotenv can
  be imported. The world is a parameter of the model. Reading a file either returns its
  variables or raises (an unknown encoding, bytes that the encoding cannot decode, a
  file that cannot be opened); the provider catches nothing.
\<close>

record world =
  environ :: "(string \<times> string) list"
  is_file :: "string \<Rightarrow> bool"
  dotenv_values :: "string \<Rightarrow> string \<Rightarrow> exn + pydict"
  dotenv_installed :: bool

text \<open>
  \<^verbatim>\<open>DotenvType\<close>: \<^verbatim>\<open>None\<close>, one path given as a string, or a list (or tuple) of paths.
\<close>

datatype dotenv_type = NoPaths | OnePath string | Paths "string list"

fun truthy :: "dotenv_type \<Rightarrow> bool" where
  "truthy NoPaths = False"
| "truthy (OnePath p) = (p \<noteq> [])"
| "truthy (Paths ps) = (ps \<noteq> [])"

fun dotenv_loop :: "world \<Rightarrow> string \<Rightarrow> string list \<Rightarrow> pydict \<Rightarrow> exn + pydict" where
  "dotenv_loop w enc [] dotenv_vars = Inr dotenv_vars"
| "dotenv_loop w enc (file_path # paths) dotenv_vars =
     (if \<not> is_file w file_path then dotenv_loop w enc paths dotenv_vars
      else (case dotenv_values w file_path enc of
              Inl e \<Rightarrow> Inl e
            | Inr vals \<Rightarrow> dotenv_loop w enc paths (dict_update dotenv_vars vals)))"

definition dotenv_source_provider :: "world \<Rightarrow> dotenv_type \<Rightarrow> string option \<Rightarrow> exn + pydict" where
  "dotenv_source_provider w env_file_paths env_file_encoding =
     (if \<not> dotenv_installed w then Inl ImportError
      else
        let enc = (case env_file_encoding of
                     None \<Rightarrow> ''utf8''
                   | Some e \<Rightarrow> if e = [] then ''utf8'' else e)
        in case env_file_paths of
             NoPaths \<Rightarrow> Inr []
           | OnePath p \<Rightarrow> dotenv_loop w enc [p] []
           | Paths ps \<Rightarrow> dotenv_loop w enc ps [])"

text \<open>
  \<^verbatim>\<open>env_source_provider(env_file_paths, env_file_encoding='utf8')\<close>: the encoding is
  \<open>None\<close> when the caller leaves the argument out. The result is the dict display
  \<^verbatim>\<open>{**env_vars, **os.environ}\<close>.
\<close>

definition env_source_provider :: "world \<Rightarrow> dotenv_type \<Rightarrow> string option \<Rightarrow> exn + pydict" where
  "env_source_provider w env_file_paths env_file_encoding =
     (let enc = (case env_file_encoding of None \<Rightarrow> ''utf8'' | Some e \<Rightarrow> e)
      in case (if truthy env_file_paths
               then (case dotenv_source_provider w env_file_paths (Some enc) of
                       Inl e \<Rightarrow> Inl e
                     | Inr vars \<Rightarrow> Inr (dict_update [] vars))
               else Inr []) of
           Inl e \<Rightarrow> Inl e
         | Inr env_vars \<Rightarrow>
             Inr (dict_update (dict_update [] env_vars)
                    (map (\<lambda>(k, v). (k, VStr v)) (environ w))))"

section \<open>Notions used in the statements\<close>

fun is_scalar :: "response \<Rightarrow> bool" where
  "is_scalar (Scalar v) = True"
| "is_scalar r = False"

text \<open>A nesting delimiter counts as configured when it is truthy.\<close>

definition nests :: "mapper \<Rightarrow> field \<Rightarrow> bool" where
  "nests m f =
     (is_model f \<and> nesting_delimiter m \<noteq> None \<and> nesting_delimiter m \<noteq> Some [])"

text \<open>
  The mapping fragments that the candidates contribute, in the order of the candidates:
  the dict a candidate's (possibly decoded) value refers to, read when the candidate is
  reached. The list stops at the first candidate that yields a scalar or raises.
\<close>

fun fragments :: "mapper \<Rightarrow> field \<Rightarrow> string list \<Rightarrow> heap \<Rightarrow> pydict list" where
  "fragments m f [] h = []"
| "fragments m f (key # keys) h =
     (case candidate_value m f key h of
        Skip \<Rightarrow> fragments m f keys h
      | Failed e \<Rightarrow> []
      | Found val h' \<Rightarrow>
          (case val of
             VDict a \<Rightarrow> dict_at h' a # fragments m f keys h'
           | _ \<Rightarrow> []))"

text \<open>
  The nested resolution as the specification words it: for every pair of a nesting
  prefix and a sub-field, in the order given, the sub-field is resolved under that prefix
  into \<^verbatim>\<open>result[alias]\<close>, which is created when absent.
\<close>

fun resolve_pairs ::
  "mapper \<Rightarrow> string \<Rightarrow> (string \<times> field) list \<Rightarrow> pyval \<Rightarrow> heap \<Rightarrow> exn + heap" where
  "resolve_pairs m al [] result h = Inr h"
| "resolve_pairs m al ((nesting_prefix, f) # ps) result h =
     (case py_setdefault result al h of
        Inl e \<Rightarrow> Inl e
      | Inr (sub, h1) \<Rightarrow>
          (case update_result_for_field m f nesting_prefix sub h1 of
             Inl e \<Rightarrow> Inl e
           | Inr h2 \<Rightarrow> resolve_pairs m al ps result h2))"

definition nesting_pairs :: "string \<Rightarrow> string list \<Rightarrow> field list \<Rightarrow> (string \<times> field) list" where
  "nesting_pairs delimiter names fs =
     concat (map (\<lambda>name. map (\<lambda>f. (name @ delimiter, f)) fs) names)"

text \<open>
  Every candidate is skipped or yields a mapping: no candidate produces a scalar and none
  raises.
\<close>

fun only_mappings :: "mapper \<Rightarrow> field \<Rightarrow> string list \<Rightarrow> heap \<Rightarrow> bool" where
  "only_mappings m f [] h = True"
| "only_mappings m f (key # keys) h =
     (case candidate_value m f key h of
        Skip \<Rightarrow> only_mappings m f keys h
      | Failed e \<Rightarrow> False
      | Found val h' \<Rightarrow>
          (case val of VDict a \<Rightarrow> only_mappings m f keys h' | _ \<Rightarrow> False))"

text \<open>
  \<open>called m flds h0 f prefix result h\<close>: in the course of \<^verbatim>\<open>__call__\<close> on the fields
  \<open>flds\<close>, started in the store \<open>h0\<close>, \<open>update_result_for_field\<close> is called for the
  field \<open>f\<close> with this prefix and this result object, in the store \<open>h\<close>. The field is
  either one of \<open>flds\<close>, reached after the fields before it, or a sub-field of a nested
  model whose own call is reached, at one of the parent's names, after the parent's
  value has been stored and the earlier names and sub-fields are done.
\<close>

inductive called ::
  "mapper \<Rightarrow> field list \<Rightarrow> heap \<Rightarrow> field \<Rightarrow> string \<Rightarrow> pyval \<Rightarrow> heap \<Rightarrow> bool"
  for m :: mapper and flds :: "field list" and h0 :: heap
where
  top:
    "flds = before @ f # rest \<Longrightarrow>
     call_loop m before (VDict (length h0)) (h0 @ [[]]) = Inr h \<Longrightarrow>
     called m flds h0 f [] (VDict (length h0)) h"
| nested:
    "called m flds h0 pf pprefix pres ph \<Longrightarrow>
     get_field_value m (field_names pf pprefix) pf ph = Inr (response, h1) \<Longrightarrow>
     store_response (field_alias pf) response pres h1 = Inr h2 \<Longrightarrow>
     is_model pf \<Longrightarrow> nesting_delimiter m = Some d \<Longrightarrow> d \<noteq> [] \<Longrightarrow>
     field_names pf pprefix = names1 @ name # names2 \<Longrightarrow>
     nested_names m d (field_alias pf) (model_fields pf) names1 pres h2 = Inr h3 \<Longrightarrow>
     model_fields pf = fs1 @ f # fs2 \<Longrightarrow>
     nested_fields m (field_alias pf) (name @ d) fs1 pres h3 = Inr h4 \<Longrightarrow>
     py_setdefault pres (field_alias pf) h4 = Inr (sub, h) \<Longrightarrow>
     called m flds h0 f (name @ d) sub h"


definition encoding_used :: "string option \<Rightarrow> string" where
  "encoding_used enc = (case enc of None \<Rightarrow> ''utf8'' | Some e \<Rightarrow> if e = [] then ''utf8'' else e)"

text \<open>Whether a dotenv file is read without an exception, and the variables read.\<close>

definition readable :: "world \<Rightarrow> string \<Rightarrow> string \<Rightarrow> bool" where
  "readable w enc p = (case dotenv_values w p enc of Inl e \<Rightarrow> False | Inr vals \<Rightarrow> True)"


section \<open>Sample inputs\<close>

text \<open>
  A decoder for the concrete inputs below: it decodes three texts and raises
  \<^verbatim>\<open>ValueError\<close> on every other string, as a decoder of structured text does on text
  that is not well formed; a value that is not a string makes it raise something else
  (\<^verbatim>\<open>json.loads\<close> raises \<^verbatim>\<open>TypeError\<close> there).
\<close>

definition sample_decoder :: "string \<Rightarrow> pyval \<Rightarrow> heap \<Rightarrow> parse_result" where
  "sample_decoder name val h =
     (case val of
        VStr s \<Rightarrow>
          if s = ''{a: 1}'' then Parsed (VDict (length h)) [[(''a'', VInt 1)]]
          else if s = ''{a: 2, b: 3}''
            then Parsed (VDict (length h)) [[(''a'', VInt 2), (''b'', VInt 3)]]
          else if s = ''5'' then Parsed (VInt 5) []
          else ValueError
      | _ \<Rightarrow> OtherError)"

text \<open>
  The sample sources have ASCII keys only. On an ASCII string \<^verbatim>\<open>str.lower()\<close> replaces
  the letters \<^verbatim>\<open>A\<close> to \<^verbatim>\<open>Z\<close> by \<^verbatim>\<open>a\<close> to \<^verbatim>\<open>z\<close> and leaves every other character as it
  is; \<open>ascii_lower\<close> does this, and stands for \<^verbatim>\<open>str.lower\<close> in the sample mappers.
\<close>

definition ascii_lower_char :: "char \<Rightarrow> char" where
  "ascii_lower_char c =
     (if CHR ''A'' \<le> c \<and> c \<le> CHR ''Z'' then char_of (of_char c + (32::nat)) else c)"

definition ascii_lower :: "string \<Rightarrow> string" where
  "ascii_lower s = map ascii_lower_char s"

definition mapper_of :: "(string \<times> pyval) list \<Rightarrow> bool \<Rightarrow> string option \<Rightarrow> mapper" where
  "mapper_of src cs d =
     \<lparr>source = src, case_sensitive = cs, nesting_delimiter = d,
      complex_parser = sample_decoder, str_lower = ascii_lower\<rparr>"

text \<open>
  Field descriptors whose alias is their name and that carry no explicit \<^verbatim>\<open>env\<close>: a
  field of a simple type, a field of a complex type such as \<^verbatim>\<open>Dict[str, int]\<close>, a field
  of a union type with a simple and a complex branch, and a field whose type is a nested
  model (for which pydantic's \<^verbatim>\<open>is_complex()\<close> holds).
\<close>

definition plain_field :: "string \<Rightarrow> string list \<Rightarrow> field" where
  "plain_field n names = Field n n names False False False [] False []"

definition complex_field :: "string \<Rightarrow> string list \<Rightarrow> field" where
  "complex_field n names = Field n n names False True False [] False []"

definition union_field :: "string \<Rightarrow> string list \<Rightarrow> field" where
  "union_field n names = Field n n names False False True [False, True] False []"

definition model_field :: "string \<Rightarrow> string list \<Rightarrow> field list \<Rightarrow> field" where
  "model_field n names fs = Field n n names False True False [] True fs"

text \<open>
  A field of a union type whose branches are all complex, such as
  \<^verbatim>\<open>Union[Dict[str, int], List[int]]\<close>: the union itself is not complex for pydantic.
\<close>

definition all_complex_union_field :: "string \<Rightarrow> string list \<Rightarrow> field" where
  "all_complex_union_field n names = Field n n names False False True [True, True] False []"

text \<open>
  A source with a mapping inside a mapping,
  \<^verbatim>\<open>{"DB": {"sub": {}}, "DB__SUB__K": {"y": 2}, "DB__SUB2__K": "5"}\<close>, and the fields
  of a model \<^verbatim>\<open>db\<close> whose sub-model \<^verbatim>\<open>sub\<close> has two candidate names and one field
  \<^verbatim>\<open>k\<close>.
\<close>

definition shared_source :: "(string \<times> pyval) list" where
  "shared_source =
     [(''DB'', VDict 0), (''DB__SUB__K'', VDict 2), (''DB__SUB2__K'', VStr ''5'')]"

definition shared_store :: heap where
  "shared_store = [[(''sub'', VDict 1)], [], [(''y'', VInt 2)]]"

definition shared_fields :: "field list" where
  "shared_fields =
     [model_field ''db'' [''DB'']
        [model_field ''sub'' [''SUB'', ''SUB2''] [plain_field ''k'' [''K'']]]]"

text \<open>
  A world with two dotenv files, \<^verbatim>\<open>a.env\<close> (\<^verbatim>\<open>K=file_a\<close>, \<^verbatim>\<open>A=1\<close>) and \<^verbatim>\<open>b.env\<close>
  (\<^verbatim>\<open>K=file_b\<close>), and a given process environment; the only encoding known is
  \<^verbatim>\<open>utf8\<close>.
\<close>

definition sample_world :: "(string \<times> string) list \<Rightarrow> world" where
  "sample_world env =
     \<lparr>environ = env,
      is_file = (\<lambda>p. p = ''a.env'' \<or> p = ''b.env''),
      dotenv_values = (\<lambda>p enc.
         if enc \<noteq> ''utf8'' then Inl LookupError
         else if p = ''a.env'' then Inr [(''K'', VStr ''file_a''), (''A'', VStr ''1'')]
         else if p = ''b.env'' then Inr [(''K'', VStr ''file_b'')]
         else Inl OSError),
      dotenv_installed = True\<rparr>"

section \<open>Dictionaries, the key index and the loop over the candidates\<close>

lemma keymap_loop_find:
  "keymap_loop m keys keydb k =
     (case keydb k of Some sk \<Rightarrow> Some sk
      | None \<Rightarrow> List.find (\<lambda>sk. normalize m sk = k) keys)"
  by (induction keys arbitrary: keydb) (auto simp: Let_def split: option.splits)

lemma keymap_find:
  "keymap m k = List.find (\<lambda>sk. normalize m sk = k) (map fst (source m))"
  by (simp add: keymap_def keymap_loop_find)

lemma ascii_lower_char_idem: "ascii_lower_char (ascii_lower_char c) = ascii_lower_char c"
  by (simp add: ascii_lower_char_def less_eq_char_def)

lemma ascii_lower_idem: "ascii_lower (ascii_lower s) = ascii_lower s"
  by (simp add: ascii_lower_def ascii_lower_char_idem)

lemma map_of_dict_set: "map_of (dict_set d k v) = (map_of d)(k \<mapsto> v)"
  by (induction d k v rule: dict_set.induct) auto

lemma map_of_dict_update: "map_of (dict_update d items) = map_of d ++ map_of (rev items)"
proof (induction items arbitrary: d)
  case Nil
  then show ?case by simp
next
  case (Cons kv items)
  obtain k v where kv: "kv = (k, v)" by (cases kv)
  have "map_of (dict_update d (kv # items)) = (map_of d)(k \<mapsto> v) ++ map_of (rev items)"
    by (simp only: kv dict_update.simps Cons.IH map_of_dict_set)
  also have "\<dots> = map_of d ++ map_of (rev (kv # items))"
    by (rule ext) (simp add: kv map_add_def split: option.splits)
  finally show ?case .
qed

lemma keymap_dom:
  "dom (keymap m) = normalize m ` set (map fst (source m))"
proof -
  have "\<And>k. (keymap m k \<noteq> None) = (k \<in> normalize m ` set (map fst (source m)))"
    by (simp add: keymap_find find_None_iff image_iff) blast
  then show ?thesis by (auto simp: dom_def)
qed

lemma loop_append:
  "get_field_value_loop m f (pre @ rest) acc h =
     (case get_field_value_loop m f pre acc h of
        Inl e \<Rightarrow> Inl e
      | Inr (r, h') \<Rightarrow>
          (case r of
             Scalar v \<Rightarrow> Inr (Scalar v, h')
           | Empty \<Rightarrow> get_field_value_loop m f rest [] h'
           | Frag d \<Rightarrow> get_field_value_loop m f rest d h'))"
proof (induction pre arbitrary: acc h)
  case Nil
  then show ?case by (simp add: final_response_def)
next
  case (Cons key pre)
  show ?case
  proof (cases "candidate_value m f key h")
    case Skip
    then show ?thesis by (simp add: Cons.IH)
  next
    case (Found val h')
    then show ?thesis by (cases val) (simp_all add: Cons.IH)
  next
    case (Failed e)
    then show ?thesis by simp
  qed
qed

lemma loop_found_scalar:
  "candidate_value m f key h = Found v h' \<Longrightarrow> \<not> is_dict v \<Longrightarrow>
   get_field_value_loop m f (key # post) acc h = Inr (Scalar v, h')"
  by (cases v) simp_all

lemma map_of_foldl_dict_update:
  "map_of (foldl dict_update acc frs) =
     foldl (++) (map_of acc) (map (\<lambda>fr. map_of (rev fr)) frs)"
  by (induction frs arbitrary: acc) (simp_all add: map_of_dict_update)

lemma loop_only_mappings:
  "only_mappings m f ks h \<Longrightarrow>
   \<exists>h'. get_field_value_loop m f ks acc h =
     Inr (final_response (foldl dict_update acc (fragments m f ks h)), h')"
proof (induction ks arbitrary: acc h)
  case Nil
  then show ?case by simp
next
  case (Cons key ks)
  show ?case
  proof (cases "candidate_value m f key h")
    case Skip
    with Cons.prems have "only_mappings m f ks h" by simp
    from Cons.IH[OF this, of acc] Skip show ?thesis by simp
  next
    case (Found val h')
    with Cons.prems obtain a where a: "val = VDict a" by (cases val) simp_all
    with Cons.prems Found have "only_mappings m f ks h'" by simp
    from Cons.IH[OF this, of "dict_update acc (dict_at h' a)"] Found a
    show ?thesis by simp
  next
    case (Failed e)
    with Cons.prems show ?thesis by simp
  qed
qed

lemma keymap_case_sensitive:
  assumes "case_sensitive m" and "map_of (source m) k = Some w"
  shows "keymap m k = Some k"
proof -
  from assms(2) have "k \<in> set (map fst (source m))"
    by (metis map_of_eq_None_iff option.distinct(1) set_map)
  then obtain x where "List.find (\<lambda>sk. sk = k) (map fst (source m)) = Some x"
    by (cases "List.find (\<lambda>sk. sk = k) (map fst (source m))") (auto simp: find_None_iff)
  moreover from this have "x = k" by (auto simp: find_Some_iff)
  ultimately show ?thesis using assms(1) by (simp add: keymap_find normalize_def)
qed

lemma keymap_insensitive_lower:
  assumes "\<not> case_sensitive m" and "keymap m name = Some sk"
  shows "str_lower m sk = name"
  using assms by (auto simp: keymap_find normalize_def find_Some_iff)

section \<open>The key index has one entry per normalized key, the first key wins\<close>

text \<open>
  Claim C2. For every source and case-sensitivity flag, the key index has exactly one
  entry per normalized key, where the normalized form of a source key is the key itself
  in case-sensitive mode and \<^verbatim>\<open>str.lower()\<close> of the key otherwise: the domain of the
  index is the set of the source keys in case-sensitive mode and the set of their
  lower-cased forms otherwise, and the entry of a normalized key is the first source
  key, in the iteration order of the source, whose normalized form it is. Later
  colliding keys are dropped; \<open>keymap\<close> has no way to raise or to warn.
\<close>

theorem keymap_first_wins:
  "dom (keymap m) =
     (if case_sensitive m then set (map fst (source m))
      else str_lower m ` set (map fst (source m))) \<and>
   keymap m k =
     List.find (\<lambda>sk. (if case_sensitive m then sk else str_lower m sk) = k)
       (map fst (source m))"
proof -
  have n: "normalize m = (\<lambda>sk. if case_sensitive m then sk else str_lower m sk)"
    by (rule ext) (simp add: normalize_def)
  have "dom (keymap m) = normalize m ` set (map fst (source m))" by (rule keymap_dom)
  moreover have "keymap m k = List.find (\<lambda>sk. normalize m sk = k) (map fst (source m))"
    by (rule keymap_find)
  ultimately show ?thesis unfolding n by simp
qed

text \<open>
  The source \<^verbatim>\<open>{"Foo": 1, "FOO": 2, "foo": 3}\<close>: in case-insensitive mode the index has
  the one entry \<^verbatim>\<open>foo\<close>, which points at \<^verbatim>\<open>Foo\<close>, the first of the three keys; in
  case-sensitive mode every key has its own entry.
\<close>

theorem keymap_first_wins_witness:
  "keymap (mapper_of [(''Foo'', VInt 1), (''FOO'', VInt 2), (''foo'', VInt 3)] False None) ''foo''
     = Some ''Foo'' \<and>
   dom (keymap (mapper_of [(''Foo'', VInt 1), (''FOO'', VInt 2), (''foo'', VInt 3)] False None))
     = {''foo''} \<and>
   keymap (mapper_of [(''Foo'', VInt 1), (''FOO'', VInt 2), (''foo'', VInt 3)] True None) ''FOO''
     = Some ''FOO'' \<and>
   dom (keymap (mapper_of [(''Foo'', VInt 1), (''FOO'', VInt 2), (''foo'', VInt 3)] True None))
     = {''Foo'', ''FOO'', ''foo''}"
proof -
  let ?src = "[(''Foo'', VInt 1), (''FOO'', VInt 2), (''foo'', VInt 3)]"
  have l1: "ascii_lower ''Foo'' = ''foo''" by code_simp
  have l2: "ascii_lower ''FOO'' = ''foo''" by code_simp
  have l3: "ascii_lower ''foo'' = ''foo''" by code_simp
  from keymap_first_wins[of "mapper_of ?src False None" "''foo''"]
  have a: "keymap (mapper_of ?src False None) ''foo'' = Some ''Foo'' \<and>
      dom (keymap (mapper_of ?src False None)) = {''foo''}"
    by (simp add: mapper_of_def l1 l2 l3)
  from keymap_first_wins[of "mapper_of ?src True None" "''FOO''"]
  have b: "keymap (mapper_of ?src True None) ''FOO'' = Some ''FOO'' \<and>
      dom (keymap (mapper_of ?src True None)) = {''Foo'', ''FOO'', ''foo''}"
    by (simp add: mapper_of_def)
  from a b show ?thesis by simp
qed

section \<open>A falsy source key\<close>

text \<open>
  Claim C10. A candidate whose key-index entry is a falsy source key (the empty string)
  is treated as a candidate without entry: the round of the loop is skipped before the
  source value is fetched, and the result of \<open>get_field_value\<close> is the one obtained
  without this candidate.
\<close>

theorem falsy_source_key_skipped:
  "keymap m key = Some [] \<Longrightarrow>
   candidate_value m f key h = Skip \<and>
   get_field_value m (pre @ key # post) f h = get_field_value m (pre @ post) f h"
proof -
  assume k: "keymap m key = Some []"
  have skip: "\<And>h. candidate_value m f key h = Skip"
    by (simp add: candidate_value_def k)
  have "\<And>acc h. get_field_value_loop m f (key # post) acc h = get_field_value_loop m f post acc h"
    by (simp add: skip)
  then have "get_field_value_loop m f (pre @ key # post) [] h = get_field_value_loop m f (pre @ post) [] h"
    by (simp only: loop_append[of m f pre "key # post"] loop_append[of m f pre post])
  with skip show ?thesis by (simp add: get_field_value_def)
qed

text \<open>
  The source \<^verbatim>\<open>{"": "secret"}\<close> and the candidate \<^verbatim>\<open>""\<close>: the index has the entry, and
  nothing is found.
\<close>

theorem falsy_source_key_skipped_witness:
  "keymap (mapper_of [([], VStr ''secret'')] False None) [] = Some [] \<and>
   get_field_value (mapper_of [([], VStr ''secret'')] False None) [[]] (plain_field ''x'' [[]]) []
     = Inr (Empty, [])"
proof -
  have k: "keymap (mapper_of [([], VStr ''secret'')] False None) [] = Some []"
    by code_simp
  have e: "get_field_value (mapper_of [([], VStr ''secret'')] False None) [] (plain_field ''x'' [[]]) []
     = Inr (Empty, [])"
    by code_simp
  from falsy_source_key_skipped[OF k, of "plain_field ''x'' [[]]" "[]" "[]" "[]"] k e
  show ?thesis by simp
qed

section \<open>Candidate names are looked up as they are\<close>

text \<open>
  Claim C4, as amended. The resolver looks a candidate name up in the key index without
  normalizing it. In case-insensitive mode a candidate has an entry exactly when the
  candidate itself is \<^verbatim>\<open>str.lower()\<close> of some source key. Lower-casing a lower-cased
  string changes nothing; so a candidate that is not in lower case (\<^verbatim>\<open>str.lower()\<close> of
  it differs from it) is skipped, whatever the source holds.
\<close>

theorem candidate_looked_up_verbatim:
  "\<not> case_sensitive m \<Longrightarrow>
   ((keymap m name \<noteq> None) = (name \<in> str_lower m ` fst ` set (source m))) \<and>
   ((\<forall>s. str_lower m (str_lower m s) = str_lower m s) \<and> str_lower m name \<noteq> name
      \<longrightarrow> candidate_value m f name h = Skip)"
proof -
  assume ci: "\<not> case_sensitive m"
  have a: "(keymap m name \<noteq> None) = (name \<in> str_lower m ` fst ` set (source m))"
    using ci by (simp add: keymap_find find_None_iff normalize_def image_iff) blast
  have b: "candidate_value m f name h = Skip"
    if "(\<forall>s. str_lower m (str_lower m s) = str_lower m s) \<and> str_lower m name \<noteq> name"
  proof (cases "keymap m name")
    case None
    then show ?thesis by (simp add: candidate_value_def)
  next
    case (Some sk)
    with ci have "str_lower m sk = name" by (rule keymap_insensitive_lower)
    moreover from that have "str_lower m (str_lower m sk) = str_lower m sk" by blast
    ultimately have "str_lower m name = name" by simp
    with that show ?thesis by simp
  qed
  from a b show ?thesis by blast
qed

text \<open>
  Over the source \<^verbatim>\<open>{"FOO": "x"}\<close> in case-insensitive mode the candidate \<^verbatim>\<open>foo\<close> has an
  entry and the candidate \<^verbatim>\<open>Foo\<close> is skipped.
\<close>

theorem candidate_looked_up_verbatim_witness:
  "keymap (mapper_of [(''FOO'', VStr ''x'')] False None) ''foo'' \<noteq> None \<and>
   candidate_value (mapper_of [(''FOO'', VStr ''x'')] False None) (plain_field ''foo'' [''Foo'']) ''Foo'' [] = Skip"
proof -
  let ?m = "mapper_of [(''FOO'', VStr ''x'')] False None"
  have ci: "\<not> case_sensitive ?m"
    by (simp add: mapper_of_def)
  have 1: "''foo'' \<in> str_lower ?m ` fst ` set (source ?m)"
    by code_simp
  have 2: "str_lower ?m ''Foo'' \<noteq> ''Foo''" by code_simp
  have 3: "\<forall>s. str_lower ?m (str_lower ?m s) = str_lower ?m s"
    by (simp add: mapper_of_def ascii_lower_idem)
  from candidate_looked_up_verbatim[OF ci, of "''foo''"] 1
  have a: "keymap ?m ''foo'' \<noteq> None" by simp
  from candidate_looked_up_verbatim[OF ci, of "''Foo''" "plain_field ''foo'' [''Foo'']" "[]"] 2 3
  have b: "candidate_value ?m (plain_field ''foo'' [''Foo'']) ''Foo'' [] = Skip" by blast
  from a b show ?thesis by simp
qed

text \<open>
  Claim C4 as stated fails: \<^verbatim>\<open>Foo\<close> and \<^verbatim>\<open>FOO\<close> have the same lower-cased form, yet in
  case-insensitive mode the candidate \<^verbatim>\<open>Foo\<close> does not find the source key \<^verbatim>\<open>FOO\<close>.
\<close>

theorem mixed_case_candidate_counterexample:
  "str_lower (mapper_of [(''FOO'', VStr ''x'')] False None) ''Foo''
     = str_lower (mapper_of [(''FOO'', VStr ''x'')] False None) ''FOO'' \<and>
   keymap (mapper_of [(''FOO'', VStr ''x'')] False None) ''Foo'' = None \<and>
   get_field_value (mapper_of [(''FOO'', VStr ''x'')] False None) [''Foo''] (plain_field ''foo'' [''Foo'']) []
     = Inr (Empty, [])"
  by code_simp

lemma candidate_value_plain:
  assumes "keymap m key = Some sk" and "sk \<noteq> []" and "map_of (source m) sk = Some w"
    and "w \<noteq> VNone" and "\<not> fst (field_is_complex f)"
  shows "candidate_value m f key h = Found w h"
  using assms by (simp add: candidate_value_def)

section \<open>The first scalar wins\<close>

text \<open>
  Claim C1, as amended. \<open>get_field_value\<close> scans the candidates in list order, looking
  each one up in the key index as it is written. When the candidates before \<open>key\<close>
  produce no scalar and raise nothing, and the (possibly decoded) value of \<open>key\<close> is
  not a mapping, that value is returned whatever candidates follow. In particular, in
  case-sensitive mode, for a field that is not complex and whose first candidate is a
  non-empty name under which the source holds a value that is neither \<^verbatim>\<open>None\<close> nor a
  mapping, that very value is returned and nothing is changed, whatever the order of
  the keys in the source and whatever the later candidates.
\<close>

theorem first_scalar_wins:
  "(get_field_value m pre f h = Inr (r, h1) \<and> \<not> is_scalar r \<and>
    candidate_value m f key h1 = Found v h2 \<and> \<not> is_dict v
      \<longrightarrow> get_field_value m (pre @ key # post) f h = Inr (Scalar v, h2)) \<and>
   (case_sensitive m \<and> \<not> fst (field_is_complex f) \<and> a \<noteq> [] \<and>
    map_of (source m) a = Some w \<and> w \<noteq> VNone \<and> \<not> is_dict w
      \<longrightarrow> get_field_value m (a # rest) f h' = Inr (Scalar w, h'))"
proof (intro conjI impI)
  assume asm: "get_field_value m pre f h = Inr (r, h1) \<and> \<not> is_scalar r \<and>
    candidate_value m f key h1 = Found v h2 \<and> \<not> is_dict v"
  then have pre: "get_field_value_loop m f pre [] h = Inr (r, h1)"
    by (simp add: get_field_value_def)
  from asm have cv: "candidate_value m f key h1 = Found v h2" and nd: "\<not> is_dict v"
    by simp_all
  have step: "\<And>acc. get_field_value_loop m f (key # post) acc h1 = Inr (Scalar v, h2)"
    by (rule loop_found_scalar[OF cv nd])
  from asm have "r = Empty \<or> (\<exists>d. r = Frag d)" by (cases r) simp_all
  then show "get_field_value m (pre @ key # post) f h = Inr (Scalar v, h2)"
    unfolding get_field_value_def loop_append[of m f pre "key # post"] pre
    by (auto simp: step simp del: get_field_value_loop.simps)
next
  assume asm: "case_sensitive m \<and> \<not> fst (field_is_complex f) \<and> a \<noteq> [] \<and>
    map_of (source m) a = Some w \<and> w \<noteq> VNone \<and> \<not> is_dict w"
  then have "keymap m a = Some a" by (simp add: keymap_case_sensitive)
  with asm have "candidate_value m f a h' = Found w h'"
    by (simp add: candidate_value_plain)
  moreover from asm have "\<not> is_dict w" by simp
  ultimately show "get_field_value m (a # rest) f h' = Inr (Scalar w, h')"
    unfolding get_field_value_def by (rule loop_found_scalar)
qed

text \<open>
  The first part at the candidates \<^verbatim>\<open>["X", "A", "B"]\<close>, where \<^verbatim>\<open>X\<close> holds a mapping, and
  the second part at the candidates \<^verbatim>\<open>["A", "B"]\<close> over the source
  \<^verbatim>\<open>{"B": "2", "A": "1"}\<close>, both in case-sensitive mode.
\<close>

theorem first_scalar_wins_witness:
  "get_field_value (mapper_of [(''X'', VDict 0), (''B'', VStr ''2''), (''A'', VStr ''1'')] True None)
     [''X'', ''A'', ''B''] (plain_field ''f'' [''X'', ''A'', ''B'']) [[(''k'', VInt 7)]]
     = Inr (Scalar (VStr ''1''), [[(''k'', VInt 7)]]) \<and>
   get_field_value (mapper_of [(''B'', VStr ''2''), (''A'', VStr ''1'')] True None)
     [''A'', ''B''] (plain_field ''f'' [''A'', ''B'']) [] = Inr (Scalar (VStr ''1''), [])"
proof -
  let ?m = "mapper_of [(''X'', VDict 0), (''B'', VStr ''2''), (''A'', VStr ''1'')] True None"
  let ?f = "plain_field ''f'' [''X'', ''A'', ''B'']"
  let ?h = "[[(''k'', VInt 7)]]"
  have 1: "get_field_value ?m [''X''] ?f ?h = Inr (Frag [(''k'', VInt 7)], ?h)" by code_simp
  have 2: "\<not> is_scalar (Frag [(''k'', VInt 7)])" by simp
  have 3: "candidate_value ?m ?f ''A'' ?h = Found (VStr ''1'') ?h" by code_simp
  have 4: "\<not> is_dict (VStr ''1'')" by simp
  let ?m' = "mapper_of [(''B'', VStr ''2''), (''A'', VStr ''1'')] True None"
  let ?f' = "plain_field ''f'' [''A'', ''B'']"
  have 5: "case_sensitive ?m'" by (simp add: mapper_of_def)
  have 6: "\<not> fst (field_is_complex ?f')" by code_simp
  have 7: "map_of (source ?m') ''A'' = Some (VStr ''1'')" by (simp add: mapper_of_def)
  from first_scalar_wins[where m = ?m and pre = "[''X'']" and f = ?f and h = ?h
      and r = "Frag [(''k'', VInt 7)]" and ?h1.0 = ?h and key = "''A''" and v = "VStr ''1''"
      and ?h2.0 = ?h and post = "[''B'']"] 1 2 3 4
  have a: "get_field_value ?m ([''X''] @ ''A'' # [''B'']) ?f ?h = Inr (Scalar (VStr ''1''), ?h)"
    by blast
  from first_scalar_wins[where m = ?m' and f = ?f' and a = "''A''" and w = "VStr ''1''"
      and rest = "[''B'']" and h' = "[]"] 5 6 7
  have b: "get_field_value ?m' [''A'', ''B''] ?f' [] = Inr (Scalar (VStr ''1''), [])"
    by simp
  from a b show ?thesis by simp
qed

text \<open>
  Claim C1 as stated fails in the default, case-insensitive mode: over the source
  \<^verbatim>\<open>{"B": "2", "A": "1"}\<close> the index has the entries \<^verbatim>\<open>b\<close> and \<^verbatim>\<open>a\<close>, the candidates
  \<^verbatim>\<open>A\<close> and \<^verbatim>\<open>B\<close> have none, and nothing is found.
\<close>

theorem first_candidate_counterexample:
  "get_field_value (mapper_of [(''B'', VStr ''2''), (''A'', VStr ''1'')] False None)
     [''A'', ''B''] (plain_field ''f'' [''A'', ''B'']) [] = Inr (Empty, []) \<and>
   get_field_value (mapper_of [(''B'', VStr ''2''), (''A'', VStr ''1'')] False None)
     [''A'', ''B''] (plain_field ''f'' [''A'', ''B'']) [] \<noteq> Inr (Scalar (VStr ''1''), [])"
  by code_simp

section \<open>Mapping fragments are merged from left to right\<close>

text \<open>
  Claim C5. When every candidate is skipped or yields a mapping, \<open>get_field_value\<close>
  returns the dict obtained by updating an empty dict with the fragments one after the
  other, in the order of the candidates, or the sentinel when that dict is empty. Read
  as a map, the dict is the right-biased sum of the fragments: on a shared key the
  later fragment wins. (For the items of a dict, whose keys are distinct,
  \<open>map_of (rev fr)\<close> is \<open>map_of fr\<close>.)
\<close>

theorem fragments_merged_left_to_right:
  "only_mappings m f ks h \<Longrightarrow>
   \<exists>h'. get_field_value m ks f h =
          Inr (if foldl dict_update [] (fragments m f ks h) = [] then Empty
               else Frag (foldl dict_update [] (fragments m f ks h)), h') \<and>
        map_of (foldl dict_update [] (fragments m f ks h)) =
          foldl (++) Map.empty (map (\<lambda>fr. map_of (rev fr)) (fragments m f ks h))"
proof -
  assume "only_mappings m f ks h"
  from loop_only_mappings[OF this, of "[]"] obtain h' where
    "get_field_value_loop m f ks [] h =
       Inr (final_response (foldl dict_update [] (fragments m f ks h)), h')"
    by blast
  then have "get_field_value m ks f h =
          Inr (if foldl dict_update [] (fragments m f ks h) = [] then Empty
               else Frag (foldl dict_update [] (fragments m f ks h)), h')"
    by (simp add: get_field_value_def final_response_def)
  moreover have "map_of (foldl dict_update [] (fragments m f ks h)) =
          foldl (++) Map.empty (map (\<lambda>fr. map_of (rev fr)) (fragments m f ks h))"
    using map_of_foldl_dict_update[of "[]"] by simp
  ultimately show ?thesis by blast
qed

text \<open>
  A complex field with the candidates \<^verbatim>\<open>X\<close> and \<^verbatim>\<open>X_SUB\<close>, both holding text that
  decodes to a mapping: the key \<^verbatim>\<open>a\<close> of the result comes from \<^verbatim>\<open>X_SUB\<close>.
\<close>

theorem fragments_merged_left_to_right_witness:
  "only_mappings (mapper_of [(''X'', VStr ''{a: 1}''), (''X_SUB'', VStr ''{a: 2, b: 3}'')] True None)
     (complex_field ''x'' [''X'', ''X_SUB'']) [''X'', ''X_SUB''] [] \<and>
   (\<exists>h'. get_field_value
      (mapper_of [(''X'', VStr ''{a: 1}''), (''X_SUB'', VStr ''{a: 2, b: 3}'')] True None)
      [''X'', ''X_SUB''] (complex_field ''x'' [''X'', ''X_SUB'']) []
      = Inr (Frag [(''a'', VInt 2), (''b'', VInt 3)], h'))"
proof -
  let ?m = "mapper_of [(''X'', VStr ''{a: 1}''), (''X_SUB'', VStr ''{a: 2, b: 3}'')] True None"
  let ?f = "complex_field ''x'' [''X'', ''X_SUB'']"
  have om: "only_mappings ?m ?f [''X'', ''X_SUB''] []" by code_simp
  have fr: "fragments ?m ?f [''X'', ''X_SUB''] [] =
      [[(''a'', VInt 1)], [(''a'', VInt 2), (''b'', VInt 3)]]"
    by code_simp
  from fragments_merged_left_to_right[OF om] om show ?thesis
    unfolding fr by simp
qed

section \<open>The store only grows\<close>

lemma candidate_value_grows:
  "candidate_value m f key h = Found v h' \<Longrightarrow> length h \<le> length h'"
  by (auto simp: candidate_value_def split: option.splits if_splits parse_result.splits)

lemma loop_grows:
  "get_field_value_loop m f ks acc h = Inr (r, h') \<Longrightarrow> length h \<le> length h'"
proof (induction ks arbitrary: acc h)
  case Nil
  then show ?case by simp
next
  case (Cons key ks)
  show ?case
  proof (cases "candidate_value m f key h")
    case Skip
    with Cons show ?thesis by simp
  next
    case (Found val h1)
    then have le: "length h \<le> length h1" by (rule candidate_value_grows)
    show ?thesis
    proof (cases val)
      case (VDict a)
      with Cons.prems Found
      have "get_field_value_loop m f ks (dict_update acc (dict_at h1 a)) h1 = Inr (r, h')"
        by simp
      from Cons.IH[OF this] le show ?thesis by simp
    qed (use Cons.prems Found le in simp_all)
  next
    case (Failed e)
    with Cons.prems show ?thesis by simp
  qed
qed

lemma get_field_value_grows:
  "get_field_value m ks f h = Inr (r, h') \<Longrightarrow> length h \<le> length h'"
  unfolding get_field_value_def by (rule loop_grows)

lemma py_setdefault_grows:
  "py_setdefault result key h = Inr (v, h') \<Longrightarrow> length h \<le> length h'"
  by (auto simp: py_setdefault_def split: pyval.splits option.splits)

lemma py_update_length:
  "py_update target items h = Inr h' \<Longrightarrow> length h' = length h"
  by (auto simp: py_update_def split: pyval.splits)

lemma py_setitem_length:
  "py_setitem result key v h = Inr h' \<Longrightarrow> length h' = length h"
  by (auto simp: py_setitem_def split: pyval.splits)

lemma store_response_grows:
  "store_response al response result h = Inr h' \<Longrightarrow> length h \<le> length h'"
  by (auto simp: store_response_def split: response.splits sum.splits
      dest!: py_setdefault_grows py_update_length py_setitem_length)

lemma resolver_grows:
  "update_result_for_field m f prefix result h = Inr h' \<Longrightarrow> length h \<le> length h'"
  "nested_names m d al fs names result h = Inr h' \<Longrightarrow> length h \<le> length h'"
  "nested_fields m al np fs result h = Inr h' \<Longrightarrow> length h \<le> length h'"
proof (induction m f prefix result h and m d al fs names result h and m al np fs result h
    arbitrary: h' and h' and h'
    rule: update_result_for_field_nested_names_nested_fields.induct)
  case (1 m f prefix result h)
  from "1.prems" obtain response h1 where
    g: "get_field_value m (field_names f prefix) f h = Inr (response, h1)"
    by (cases "get_field_value m (field_names f prefix) f h") auto
  from "1.prems" g obtain h2 where
    s: "store_response (field_alias f) response result h1 = Inr h2"
    by (cases "store_response (field_alias f) response result h1") auto
  have le: "length h \<le> length h2"
    using get_field_value_grows[OF g] store_response_grows[OF s] by simp
  show ?case
  proof (cases "nesting_delimiter m")
    case None
    with "1.prems" g s le show ?thesis by simp
  next
    case (Some delimiter)
    show ?thesis
    proof (cases "is_model f \<and> delimiter \<noteq> []")
      case True
      with "1.prems" g s Some
      have n: "nested_names m delimiter (field_alias f) (model_fields f)
                 (field_names f prefix) result h2 = Inr h'"
        by simp
      from "1.IH"[OF g refl s Some True n] le show ?thesis by simp
    next
      case False
      with "1.prems" g s Some le show ?thesis by auto
    qed
  qed
next
  case (2 m delimiter al fs result h)
  then show ?case by simp
next
  case (3 m delimiter al fs name names result h)
  from "3.prems" obtain h1 where
    a: "nested_fields m al (name @ delimiter) fs result h = Inr h1"
    by (cases "nested_fields m al (name @ delimiter) fs result h") auto
  with "3.prems" have b: "nested_names m delimiter al fs names result h1 = Inr h'" by simp
  from "3.IH"(1)[OF a] "3.IH"(2)[OF a b] show ?case by simp
next
  case (4 m al nesting_prefix result h)
  then show ?case by simp
next
  case (5 m al nesting_prefix f fs result h)
  from "5.prems" obtain sub h1 where
    a: "py_setdefault result al h = Inr (sub, h1)"
    by (cases "py_setdefault result al h") auto
  from "5.prems" a obtain h2 where
    b: "update_result_for_field m f nesting_prefix sub h1 = Inr h2"
    by (cases "update_result_for_field m f nesting_prefix sub h1") auto
  from "5.prems" a b have c: "nested_fields m al nesting_prefix fs result h2 = Inr h'" by simp
  from py_setdefault_grows[OF a] "5.IH"(1)[OF a refl b] "5.IH"(2)[OF a refl b c]
  show ?case by simp
qed

lemma call_loop_grows:
  "call_loop m fs result h = Inr h' \<Longrightarrow> length h \<le> length h'"
proof (induction fs arbitrary: h)
  case Nil
  then show ?case by simp
next
  case (Cons f fs)
  from Cons.prems obtain h1 where
    a: "update_result_for_field m f [] result h = Inr h1"
    by (cases "update_result_for_field m f [] result h") auto
  with Cons.prems have "call_loop m fs result h1 = Inr h'" by simp
  from Cons.IH[OF this] resolver_grows(1)[OF a] show ?case by simp
qed

lemma call_loop_append:
  "call_loop m (xs @ ys) result h =
     (case call_loop m xs result h of Inl e \<Rightarrow> Inl e | Inr h' \<Rightarrow> call_loop m ys result h')"
  by (induction xs arbitrary: h) (auto split: sum.splits)

lemma scalar_after_prefix:
  assumes "get_field_value m pre f h = Inr (r, h1)" and "\<not> is_scalar r"
    and "candidate_value m f key h1 = Found v h2" and "\<not> is_dict v"
  shows "get_field_value m (pre @ key # post) f h = Inr (Scalar v, h2)"
proof -
  from assms(1) have pre: "get_field_value_loop m f pre [] h = Inr (r, h1)"
    by (simp add: get_field_value_def)
  have step: "\<And>acc. get_field_value_loop m f (key # post) acc h1 = Inr (Scalar v, h2)"
    by (rule loop_found_scalar[OF assms(3,4)])
  from assms(2) have "r = Empty \<or> (\<exists>d. r = Frag d)" by (cases r) simp_all
  then show ?thesis
    unfolding get_field_value_def loop_append[of m f pre "key # post"] pre
    by (auto simp: step simp del: get_field_value_loop.simps)
qed

lemma failure_after_prefix:
  assumes "get_field_value m pre f h = Inr (r, h1)" and "\<not> is_scalar r"
    and "candidate_value m f key h1 = Failed e"
  shows "get_field_value m (pre @ key # post) f h = Inl e"
proof -
  from assms(1) have pre: "get_field_value_loop m f pre [] h = Inr (r, h1)"
    by (simp add: get_field_value_def)
  have step: "\<And>acc. get_field_value_loop m f (key # post) acc h1 = Inl e"
    by (simp add: assms(3))
  from assms(2) have "r = Empty \<or> (\<exists>d. r = Frag d)" by (cases r) simp_all
  then show ?thesis
    unfolding get_field_value_def loop_append[of m f pre "key # post"] pre
    by (auto simp: step simp del: get_field_value_loop.simps)
qed

lemma keymap_normalize: "keymap m key = Some sk \<Longrightarrow> normalize m sk = key"
  by (auto simp: keymap_find find_Some_iff)

lemma update_result_for_field_raises:
  "get_field_value m (field_names f prefix) f h = Inl e \<Longrightarrow>
   update_result_for_field m f prefix result h = Inl e"
  by simp

lemma update_result_for_field_flat:
  assumes "get_field_value m (field_names f prefix) f h = Inr (response, h1)"
    and "\<not> nests m f"
  shows "update_result_for_field m f prefix result h =
           store_response (field_alias f) response result h1"
  using assms by (auto simp: nests_def split: sum.splits option.splits)

lemma dict_at_update: "r < length h \<Longrightarrow> dict_at (h[r := d]) r = d"
  by (simp add: dict_at_def)

section \<open>The nested loops as one pass over prefixes and sub-fields\<close>

lemma nested_fields_pairs:
  "nested_fields m al np fs result h = resolve_pairs m al (map (\<lambda>f. (np, f)) fs) result h"
  by (induction fs arbitrary: h)
     (auto split: sum.splits simp del: update_result_for_field.simps)

lemma resolve_pairs_append:
  "resolve_pairs m al (xs @ ys) result h =
     (case resolve_pairs m al xs result h of
        Inl e \<Rightarrow> Inl e
      | Inr h' \<Rightarrow> resolve_pairs m al ys result h')"
  by (induction xs arbitrary: h)
     (auto split: sum.splits simp del: update_result_for_field.simps)

lemma nested_names_pairs:
  "nested_names m d al fs names result h =
     resolve_pairs m al (nesting_pairs d names fs) result h"
  by (induction names arbitrary: h)
     (auto simp: nesting_pairs_def nested_fields_pairs resolve_pairs_append split: sum.splits)

section \<open>Nested models are resolved under prefixed names\<close>

text \<open>
  Claim C7, as amended. For a field whose type is a nested model, when a non-empty
  nesting delimiter is configured, \<open>update_result_for_field\<close> first stores what
  \<open>get_field_value\<close> found and then, for every candidate name in order and every
  sub-field of the model in order, resolves the sub-field under the prefix made of the
  name and the delimiter into \<^verbatim>\<open>result[field.alias]\<close>, which is created when absent. In
  case-sensitive mode, with the delimiter \<^verbatim>\<open>__\<close>, the field \<^verbatim>\<open>db\<close> with the candidate
  \<^verbatim>\<open>DB\<close>, its sub-field \<^verbatim>\<open>host\<close> with the candidate \<^verbatim>\<open>HOST\<close> and the source
  \<^verbatim>\<open>{"DB__HOST": "localhost"}\<close>, the result is \<^verbatim>\<open>{"db": {"host": "localhost"}}\<close>: the
  result dict, at address 0, holds under \<^verbatim>\<open>db\<close> the dict at address 1, which holds
  \<^verbatim>\<open>localhost\<close> under \<^verbatim>\<open>host\<close>.
\<close>

theorem nested_model_resolved_under_prefixes:
  "(nests m f \<and> nesting_delimiter m = Some d \<and>
    get_field_value m (field_names f prefix) f h = Inr (response, h1) \<and>
    store_response (field_alias f) response result h1 = Inr h2
      \<longrightarrow> update_result_for_field m f prefix result h =
            resolve_pairs m (field_alias f)
              (nesting_pairs d (field_names f prefix) (model_fields f)) result h2) \<and>
   call (mapper_of [(''DB__HOST'', VStr ''localhost'')] True (Some ''__''))
     [model_field ''db'' [''DB''] [plain_field ''host'' [''HOST'']]] []
     = Inr (VDict 0, [[(''db'', VDict 1)], [(''host'', VStr ''localhost'')]])"
proof (intro conjI impI)
  assume a: "nests m f \<and> nesting_delimiter m = Some d \<and>
    get_field_value m (field_names f prefix) f h = Inr (response, h1) \<and>
    store_response (field_alias f) response result h1 = Inr h2"
  then have "is_model f \<and> d \<noteq> []" by (auto simp: nests_def)
  with a show "update_result_for_field m f prefix result h =
            resolve_pairs m (field_alias f)
              (nesting_pairs d (field_names f prefix) (model_fields f)) result h2"
    by (simp add: nested_names_pairs)
next
  show "call (mapper_of [(''DB__HOST'', VStr ''localhost'')] True (Some ''__''))
     [model_field ''db'' [''DB''] [plain_field ''host'' [''HOST'']]] []
     = Inr (VDict 0, [[(''db'', VDict 1)], [(''host'', VStr ''localhost'')]])"
    by code_simp
qed

text \<open>
  The first part at the example: the only pair is the prefix \<^verbatim>\<open>DB__\<close> with the
  sub-field \<^verbatim>\<open>host\<close>.
\<close>

theorem nested_model_resolved_under_prefixes_witness:
  "nesting_pairs ''__'' [''DB''] [plain_field ''host'' [''HOST'']]
     = [(''DB__'', plain_field ''host'' [''HOST''])] \<and>
   update_result_for_field (mapper_of [(''DB__HOST'', VStr ''localhost'')] True (Some ''__''))
     (model_field ''db'' [''DB''] [plain_field ''host'' [''HOST'']]) [] (VDict 0) [[]]
     = Inr [[(''db'', VDict 1)], [(''host'', VStr ''localhost'')]]"
proof -
  let ?m = "mapper_of [(''DB__HOST'', VStr ''localhost'')] True (Some ''__'')"
  let ?host = "plain_field ''host'' [''HOST'']"
  let ?db = "model_field ''db'' [''DB''] [?host]"
  have n: "nests ?m ?db" by code_simp
  have d: "nesting_delimiter ?m = Some ''__''" by code_simp
  have g: "get_field_value ?m (field_names ?db []) ?db [[]] = Inr (Empty, [[]])" by code_simp
  have s: "store_response (field_alias ?db) Empty (VDict 0) [[]] = Inr [[]]" by code_simp
  have p: "nesting_pairs ''__'' (field_names ?db []) (model_fields ?db) = [(''DB__'', ?host)]"
    by code_simp
  have p': "nesting_pairs ''__'' [''DB''] [?host] = [(''DB__'', ?host)]"
    by code_simp
  have r: "resolve_pairs ?m (field_alias ?db) [(''DB__'', ?host)] (VDict 0) [[]]
      = Inr [[(''db'', VDict 1)], [(''host'', VStr ''localhost'')]]"
    by code_simp
  note nested_model_resolved_under_prefixes[where m = ?m and f = ?db and d = "''__''"
      and prefix = "[]" and h = "[[]]" and response = Empty and ?h1.0 = "[[]]"
      and result = "VDict 0" and ?h2.0 = "[[]]", THEN conjunct1, THEN mp, OF conjI[OF n conjI[OF d conjI[OF g s]]]]
  note this[unfolded p r]
  with p' show ?thesis by simp
qed

text \<open>
  Claim C7 as stated fails in the default, case-insensitive mode: the index holds
  \<^verbatim>\<open>db__host\<close>, the name \<^verbatim>\<open>DB__HOST\<close> is looked up as it is, and the result is
  \<^verbatim>\<open>{"db": {}}\<close>.
\<close>

theorem nested_default_mode_counterexample:
  "call (mapper_of [(''DB__HOST'', VStr ''localhost'')] False (Some ''__''))
     [model_field ''db'' [''DB''] [plain_field ''host'' [''HOST'']]] []
     = Inr (VDict 0, [[(''db'', VDict 1)], []]) \<and>
   call (mapper_of [(''DB__HOST'', VStr ''localhost'')] False (Some ''__''))
     [model_field ''db'' [''DB''] [plain_field ''host'' [''HOST'']]] []
     \<noteq> Inr (VDict 0, [[(''db'', VDict 1)], [(''host'', VStr ''localhost'')]])"
  by code_simp

section \<open>A nested model without any match still gets an entry\<close>

text \<open>
  Claim C6 does not hold of the code. With a delimiter configured, a nested model field
  none of whose candidates, own or prefixed, is in the source gets the entry
  \<^verbatim>\<open>{}\<close>: the argument \<^verbatim>\<open>result.setdefault(field.alias, {})\<close> of the recursive call
  creates it before anything is looked up. Here the source is \<^verbatim>\<open>{"OTHER": "1"}\<close>;
  neither \<^verbatim>\<open>DB\<close> nor \<^verbatim>\<open>DB__HOST\<close> is found, and the result is \<^verbatim>\<open>{"db": {}}\<close>.
\<close>

theorem unmatched_nested_model_gets_placeholder:
  "get_field_value (mapper_of [(''OTHER'', VStr ''1'')] True (Some ''__'')) [''DB'']
     (model_field ''db'' [''DB''] [plain_field ''host'' [''HOST'']]) [[]] = Inr (Empty, [[]]) \<and>
   get_field_value (mapper_of [(''OTHER'', VStr ''1'')] True (Some ''__'')) [''DB__HOST'']
     (plain_field ''host'' [''HOST'']) [[(''db'', VDict 1)], []]
     = Inr (Empty, [[(''db'', VDict 1)], []]) \<and>
   call (mapper_of [(''OTHER'', VStr ''1'')] True (Some ''__''))
     [model_field ''db'' [''DB''] [plain_field ''host'' [''HOST'']]] []
     = Inr (VDict 0, [[(''db'', VDict 1)], []])"
  by code_simp

section \<open>A second call can differ from the first\<close>

text \<open>
  Claim C9 does not hold of the code. The source
  \<^verbatim>\<open>{"DB": {"sub": {}}, "DB__SUB__K": {"y": 2}, "DB__SUB2__K": "5"}\<close> holds the dict
  \<^verbatim>\<open>{"sub": {}}\<close> at address 0, its inner dict at address 1 and \<^verbatim>\<open>{"y": 2}\<close> at address 2.
  The first call copies the items of the dict at address 0 into the result, so that the
  inner dict of the source becomes \<^verbatim>\<open>result["db"]["sub"]\<close>, and then writes into it:
  the call returns \<^verbatim>\<open>{"db": {"sub": {"k": "5"}}}\<close> and leaves the source changed. The
  second call, on the store the first one left, finds the string \<^verbatim>\<open>5\<close> where it wants to
  update a dict and raises \<^verbatim>\<open>AttributeError\<close>.
\<close>

theorem second_call_differs:
  "call (mapper_of shared_source True (Some ''__'')) shared_fields shared_store
     = Inr (VDict 3,
         [[(''sub'', VDict 1)], [(''k'', VStr ''5'')], [(''y'', VInt 2)],
          [(''db'', VDict 4)], [(''sub'', VDict 1)], [(''y'', VInt 2)]]) \<and>
   call (mapper_of shared_source True (Some ''__'')) shared_fields
     [[(''sub'', VDict 1)], [(''k'', VStr ''5'')], [(''y'', VInt 2)],
      [(''db'', VDict 4)], [(''sub'', VDict 1)], [(''y'', VInt 2)]]
     = Inl AttributeError"
  by code_simp

section \<open>The dotenv files and the process environment\<close>


lemma dotenv_loop_raises:
  "list_all (readable w enc) (filter (is_file w) before) \<Longrightarrow> is_file w p \<Longrightarrow>
   dotenv_values w p enc = Inl e \<Longrightarrow>
   dotenv_loop w enc (before @ p # rest) vars = Inl e"
  by (induction before arbitrary: vars)
     (auto simp: readable_def split: sum.splits)










text \<open>
  An exception of \<^verbatim>\<open>dotenv_values\<close> leaves the provider as it is: the first file that
  cannot be read ends the call.
\<close>

lemma env_source_provider_raises:
  assumes "dotenv_installed w"
    and "list_all (readable w (encoding_used enc)) (filter (is_file w) before)"
    and "is_file w p" and "dotenv_values w p (encoding_used enc) = Inl e"
  shows "env_source_provider w (Paths (before @ p # rest)) enc = Inl e"
proof -
  have "encoding_used (Some (case enc of None \<Rightarrow> ''utf8'' | Some e \<Rightarrow> e)) = encoding_used enc"
    by (simp add: encoding_used_def split: option.splits)
  then have "dotenv_source_provider w (Paths (before @ p # rest))
      (Some (case enc of None \<Rightarrow> ''utf8'' | Some e \<Rightarrow> e)) = Inl e"
    using assms dotenv_loop_raises[OF assms(2,3,4), of rest "[]"]
    by (simp add: dotenv_source_provider_def encoding_used_def Let_def)
  then show ?thesis by (simp add: env_source_provider_def)
qed

lemma unknown_encoding_raises:
  "env_source_provider (sample_world []) (OnePath ''a.env'') (Some ''no-such-encoding'')
     = Inl LookupError"
  by code_simp

section \<open>An exception raised for any field aborts the call\<close>

lemma nested_fields_append:
  "nested_fields m al np (xs @ ys) result h =
     (case nested_fields m al np xs result h of
        Inl e \<Rightarrow> Inl e
      | Inr h' \<Rightarrow> nested_fields m al np ys result h')"
  by (simp add: nested_fields_pairs resolve_pairs_append split: sum.splits)

lemma nested_names_append:
  "nested_names m d al fs (xs @ ys) result h =
     (case nested_names m d al fs xs result h of
        Inl e \<Rightarrow> Inl e
      | Inr h' \<Rightarrow> nested_names m d al fs ys result h')"
  by (simp add: nested_names_pairs nesting_pairs_def resolve_pairs_append split: sum.splits)

lemma called_raise_aborts:
  "called m flds h0 f prefix result h \<Longrightarrow>
   update_result_for_field m f prefix result h = Inl e \<Longrightarrow>
   call m flds h0 = Inl e"
proof (induction rule: called.induct)
  case (top before f rest h)
  then show ?case
    by (simp add: call_def call_loop_append del: update_result_for_field.simps)
next
  case (nested pf pprefix pres ph response h1 h2 d names1 name names2 h3 fs1 f fs2 h4 sub h)
  have "nested_fields m (field_alias pf) (name @ d) (fs1 @ f # fs2) pres h3 = Inl e"
    using nested.hyps(10,11) nested.prems
    by (simp add: nested_fields_append del: update_result_for_field.simps)
  then have "nested_names m d (field_alias pf) (model_fields pf) (names1 @ name # names2) pres h2
      = Inl e"
    using nested.hyps(8,9) by (simp add: nested_names_append)
  then have "update_result_for_field m pf pprefix pres ph = Inl e"
    using nested.hyps(2-7) by simp
  then show ?case by (rule nested.IH)
qed

section \<open>A failed decoding is fatal unless the field tolerates it\<close>

lemma field_is_complex_fst:
  "fst (field_is_complex f) = (is_complex f \<or> (is_union f \<and> True \<in> set (sub_fields f)))"
  by (auto simp: field_is_complex_def list_ex_iff)

lemma field_is_complex_snd:
  "snd (field_is_complex f) = (\<not> is_complex f \<and> is_union f \<and> True \<in> set (sub_fields f))"
  by (auto simp: field_is_complex_def list_ex_iff)

text \<open>
  Claim C3, as amended. Let \<open>update_result_for_field\<close> be called for the field \<open>f\<close>, at
  any depth of nesting, in the course of a top-level call, and let the candidates of
  \<open>f\<close> be \<open>pre @ key # post\<close>, where the candidates \<open>pre\<close> produce no scalar and
  raise nothing. Let \<open>key\<close> lead to the source key \<open>sk\<close>, whose value \<open>raw\<close> is
  neither \<^verbatim>\<open>None\<close> nor a mapping, let the type of the field be complex in itself
  (\<^verbatim>\<open>field.is_complex()\<close>) or a union with at least one complex branch, and let the
  decoder raise \<^verbatim>\<open>ValueError\<close> on \<open>raw\<close>. The name \<open>key\<close> is the normalized form of the
  source key. Then:
  \<^item> when the type is complex in itself, the whole top-level call raises the
    \<^verbatim>\<open>SettingsError\<close> that names \<open>key\<close> and returns no result;
  \<^item> when it is not, that is for a union with a complex branch, whatever its other
    branches are, \<open>get_field_value\<close> raises nothing and returns \<open>raw\<close> as it is; and
    when the field starts no nested resolution and the result object is a dict of the
    store, \<open>update_result_for_field\<close> raises nothing and stores \<open>raw\<close> under the
    field's alias in that dict.
\<close>

theorem parse_failure_fatal_unless_tolerated:
  assumes "called m flds h0 f prefix result h"
    and "field_names f prefix = pre @ key # post"
    and "get_field_value m pre f h = Inr (r, h1)" and "\<not> is_scalar r"
    and "keymap m key = Some sk" and "sk \<noteq> []" and "map_of (source m) sk = Some raw"
    and "raw \<noteq> VNone" and "\<not> is_dict raw"
    and "is_complex f \<or> (is_union f \<and> True \<in> set (sub_fields f))"
    and "complex_parser m (field_name f) raw h1 = ValueError"
  shows "(if case_sensitive m then sk else str_lower m sk) = key \<and>
    (is_complex f \<longrightarrow> call m flds h0 = Inl (SettingsError key)) \<and>
    (\<not> is_complex f \<longrightarrow>
       get_field_value m (field_names f prefix) f h = Inr (Scalar raw, h1) \<and>
       (\<not> nests m f \<and> result = VDict a \<and> a < length h \<longrightarrow>
          update_result_for_field m f prefix result h =
            Inr (h1[a := dict_set (dict_at h1 a) (field_alias f) raw]) \<and>
          map_of (dict_at (h1[a := dict_set (dict_at h1 a) (field_alias f) raw]) a)
            (field_alias f) = Some raw))"
proof (intro conjI impI)
  show "(if case_sensitive m then sk else str_lower m sk) = key"
    using keymap_normalize[OF assms(5)] by (simp add: normalize_def)
next
  have cx: "fst (field_is_complex f)"
    using assms(10) by (simp add: field_is_complex_fst)
  assume "is_complex f"
  then have nt: "\<not> snd (field_is_complex f)" by (simp add: field_is_complex_snd)
  have "candidate_value m f key h1 = Failed (SettingsError key)"
    using assms(5-9,11) cx nt by (simp add: candidate_value_def)
  from failure_after_prefix[OF assms(3,4) this]
  have "get_field_value m (field_names f prefix) f h = Inl (SettingsError key)"
    by (simp add: assms(2))
  then have "update_result_for_field m f prefix result h = Inl (SettingsError key)"
    by (rule update_result_for_field_raises)
  with assms(1) show "call m flds h0 = Inl (SettingsError key)"
    by (rule called_raise_aborts)
next
  have cx: "fst (field_is_complex f)"
    using assms(10) by (simp add: field_is_complex_fst)
  assume "\<not> is_complex f"
  with assms(10) have t: "snd (field_is_complex f)" by (simp add: field_is_complex_snd)
  have cv: "candidate_value m f key h1 = Found raw h1"
    using assms(5-9,11) cx t by (simp add: candidate_value_def)
  from scalar_after_prefix[OF assms(3,4) cv assms(9)]
  show g: "get_field_value m (field_names f prefix) f h = Inr (Scalar raw, h1)"
    by (simp add: assms(2))
  assume c: "\<not> nests m f \<and> result = VDict a \<and> a < length h"
  let ?h2 = "h1[a := dict_set (dict_at h1 a) (field_alias f) raw]"
  from c update_result_for_field_flat[OF g, of result]
  show "update_result_for_field m f prefix result h = Inr ?h2"
    by (simp add: store_response_def py_setitem_def)
  have "length h \<le> length h1" using assms(3) by (rule get_field_value_grows)
  with c have "a < length h1" by simp
  then show "map_of (dict_at ?h2 a) (field_alias f) = Some raw"
    by (simp add: dict_at_update map_of_dict_set)
qed

text \<open>
  The source \<^verbatim>\<open>{"DEBUG": "1", "DB__SETTINGS": "oops"}\<close> in case-sensitive mode with the
  delimiter \<^verbatim>\<open>__\<close>, and the fields \<^verbatim>\<open>debug\<close>, \<^verbatim>\<open>db\<close> and \<^verbatim>\<open>later\<close>, where \<^verbatim>\<open>db\<close> is a
  nested model with the field \<^verbatim>\<open>settings\<close>: when \<^verbatim>\<open>settings\<close> has a complex type the
  call raises; when it has a union type, the text \<^verbatim>\<open>oops\<close> itself is stored in
  \<^verbatim>\<open>result["db"]\<close>, the dict at address 1.
\<close>

theorem parse_failure_fatal_unless_tolerated_witness:
  "call (mapper_of [(''DEBUG'', VStr ''1''), (''DB__SETTINGS'', VStr ''oops'')] True (Some ''__''))
     [plain_field ''debug'' [''DEBUG''],
      model_field ''db'' [''DB''] [complex_field ''settings'' [''SETTINGS'']],
      plain_field ''later'' [''LATER'']] []
     = Inl (SettingsError ''DB__SETTINGS'') \<and>
   update_result_for_field
     (mapper_of [(''DEBUG'', VStr ''1''), (''DB__SETTINGS'', VStr ''oops'')] True (Some ''__''))
     (union_field ''settings'' [''SETTINGS'']) ''DB__'' (VDict 1)
     [[(''debug'', VStr ''1''), (''db'', VDict 1)], []]
     = Inr [[(''debug'', VStr ''1''), (''db'', VDict 1)], [(''settings'', VStr ''oops'')]]"
proof -
  let ?m = "mapper_of [(''DEBUG'', VStr ''1''), (''DB__SETTINGS'', VStr ''oops'')] True (Some ''__'')"
  let ?d = "plain_field ''debug'' [''DEBUG'']"
  let ?c = "complex_field ''settings'' [''SETTINGS'']"
  let ?u = "union_field ''settings'' [''SETTINGS'']"
  let ?dbc = "model_field ''db'' [''DB''] [?c]"
  let ?dbu = "model_field ''db'' [''DB''] [?u]"
  let ?l = "plain_field ''later'' [''LATER'']"
  let ?h = "[[(''debug'', VStr ''1'')]]"
  let ?h' = "[[(''debug'', VStr ''1''), (''db'', VDict 1)], []]"
  have top_c: "called ?m [?d, ?dbc, ?l] [] ?dbc [] (VDict (length ([]::heap))) ?h"
    by (rule called.top[where before = "[?d]" and rest = "[?l]"]) (simp, code_simp)
  have top_u: "called ?m [?d, ?dbu, ?l] [] ?dbu [] (VDict (length ([]::heap))) ?h"
    by (rule called.top[where before = "[?d]" and rest = "[?l]"]) (simp, code_simp)
  have sub_c: "called ?m [?d, ?dbc, ?l] [] ?c (''DB'' @ ''__'') (VDict 1) ?h'"
    apply (rule called.nested[OF top_c, where response = Empty and ?h1.0 = ?h and ?h2.0 = ?h
          and d = "''__''" and ?names1.0 = "[]" and name = "''DB''" and ?names2.0 = "[]"
          and ?h3.0 = ?h and ?fs1.0 = "[]" and ?fs2.0 = "[]" and ?h4.0 = ?h])
             apply code_simp+
    done
  have sub_u: "called ?m [?d, ?dbu, ?l] [] ?u (''DB'' @ ''__'') (VDict 1) ?h'"
    apply (rule called.nested[OF top_u, where response = Empty and ?h1.0 = ?h and ?h2.0 = ?h
          and d = "''__''" and ?names1.0 = "[]" and name = "''DB''" and ?names2.0 = "[]"
          and ?h3.0 = ?h and ?fs1.0 = "[]" and ?fs2.0 = "[]" and ?h4.0 = ?h])
             apply code_simp+
    done
  have c2: "field_names ?c (''DB'' @ ''__'') = [] @ ''DB__SETTINGS'' # []" by code_simp
  have u2: "field_names ?u (''DB'' @ ''__'') = [] @ ''DB__SETTINGS'' # []" by code_simp
  have c3: "get_field_value ?m [] ?c ?h' = Inr (Empty, ?h')" by code_simp
  have u3: "get_field_value ?m [] ?u ?h' = Inr (Empty, ?h')" by code_simp
  have c4: "\<not> is_scalar Empty" by simp
  have c5: "keymap ?m ''DB__SETTINGS'' = Some ''DB__SETTINGS''" by code_simp
  have c6: "''DB__SETTINGS'' \<noteq> []" by simp
  have c7: "map_of (source ?m) ''DB__SETTINGS'' = Some (VStr ''oops'')" by code_simp
  have c8: "VStr ''oops'' \<noteq> VNone" by simp
  have c9: "\<not> is_dict (VStr ''oops'')" by simp
  have c10: "is_complex ?c \<or> (is_union ?c \<and> True \<in> set (sub_fields ?c))"
    by (simp add: complex_field_def)
  have u10: "is_complex ?u \<or> (is_union ?u \<and> True \<in> set (sub_fields ?u))"
    by (simp add: union_field_def)
  have c11: "complex_parser ?m (field_name ?c) (VStr ''oops'') ?h' = ValueError" by code_simp
  have u11: "complex_parser ?m (field_name ?u) (VStr ''oops'') ?h' = ValueError" by code_simp
  have nt: "is_complex ?c" by (simp add: complex_field_def)
  have t: "\<not> is_complex ?u" by (simp add: union_field_def)
  have nn: "\<not> nests ?m ?u \<and> VDict 1 = VDict 1 \<and> 1 < length ?h'" by code_simp
  have hu: "?h'[1 := dict_set (dict_at ?h' 1) (field_alias ?u) (VStr ''oops'')]
      = [[(''debug'', VStr ''1''), (''db'', VDict 1)], [(''settings'', VStr ''oops'')]]"
    by code_simp
  note parse_failure_fatal_unless_tolerated[OF sub_c c2 c3 c4 c5 c6 c7 c8 c9 c10 c11]
  note this[THEN conjunct2, THEN conjunct1, THEN mp, OF nt]
  then have a: "call ?m [?d, ?dbc, ?l] [] = Inl (SettingsError ''DB__SETTINGS'')" .
  note parse_failure_fatal_unless_tolerated[OF sub_u u2 u3 c4 c5 c6 c7 c8 c9 u10 u11, where a = 1]
  note this[THEN conjunct2, THEN conjunct2, THEN mp, OF t]
  note this[THEN conjunct2, THEN mp, OF nn]
  note this[THEN conjunct1, unfolded hu]
  then have b: "update_result_for_field ?m ?u ''DB__'' (VDict 1) ?h'
      = Inr [[(''debug'', VStr ''1''), (''db'', VDict 1)], [(''settings'', VStr ''oops'')]]"
    by simp
  from a b show ?thesis by simp
qed

text \<open>
  Claim C3 as stated fails twice. A field of a union type whose branches are all
  complex has no non-complex branch, so the claim lets the failed decoding raise; the
  classifier allows the failure and the text \<^verbatim>\<open>oops\<close> is stored. And for a field that
  tolerates a failed decoding, a decoder that fails with another exception than
  \<^verbatim>\<open>ValueError\<close> (as \<^verbatim>\<open>json.loads\<close> does with \<^verbatim>\<open>TypeError\<close> on the number 5) ends the call
  with that exception.
\<close>

theorem tolerance_counterexample:
  "sub_fields (all_complex_union_field ''settings'' [''SETTINGS'']) = [True, True] \<and>
   complex_parser (mapper_of [(''SETTINGS'', VStr ''oops'')] True None) ''settings''
     (VStr ''oops'') [[]] = ValueError \<and>
   call (mapper_of [(''SETTINGS'', VStr ''oops'')] True None)
     [all_complex_union_field ''settings'' [''SETTINGS'']] []
     = Inr (VDict 0, [[(''settings'', VStr ''oops'')]]) \<and>
   snd (field_is_complex (union_field ''settings'' [''SETTINGS''])) \<and>
   complex_parser (mapper_of [(''SETTINGS'', VInt 5)] True None) ''settings''
     (VInt 5) [[]] = OtherError \<and>
   call (mapper_of [(''SETTINGS'', VInt 5)] True None)
     [union_field ''settings'' [''SETTINGS'']] []
     = Inl OtherException"
  by code_simp

end
